theory Spec2Isabelle
  imports Main
begin

section \<open>liten.py: the duplicate scan of LitenBaseClass\<close>

text \<open>
  The development embeds \<^verbatim>\<open>LitenBaseClass\<close> of \<^verbatim>\<open>liten.py\<close> (Python 2): the
  constructor, the helper methods that \<^verbatim>\<open>diskWalker\<close> calls, and \<^verbatim>\<open>diskWalker\<close>
  itself.

  What the operating system and the Python library contribute is data of the model:
  \<^item> \<^verbatim>\<open>os.walk\<close> and the inner loop over \<^verbatim>\<open>files\<close> yield a sequence of directory entries;
    an \<open>entry\<close> holds what the calls made on that entry return
    (\<^verbatim>\<open>os.path.join\<close>, \<^verbatim>\<open>os.path.isfile\<close>, \<^verbatim>\<open>os.path.getsize\<close>, \<^verbatim>\<open>open\<close> and the
    read of the content, \<^verbatim>\<open>os.path.getctime\<close>, \<^verbatim>\<open>os.path.getmtime\<close>) and the clock
    read by \<^verbatim>\<open>datetime.datetime.now()\<close> while the entry is processed;
  \<^item> the digest \<^verbatim>\<open>md5\<close> is a parameter \<open>md5\<close> of type \<open>string \<Rightarrow> string\<close>;
  \<^item> the byte threshold returned by \<^verbatim>\<open>self.sizeType()\<close> is a parameter
    \<open>byteSizeThreshold\<close>;
  \<^item> a string rendered by \<^verbatim>\<open>time.strftime\<close> is kept symbolic as \<open>Strftime fmt t\<close>.

  Standard output (the verbose progress lines, the summary, and the line
  \<^verbatim>\<open>IO error for ...\<close> that \<^verbatim>\<open>createChecksum\<close> prints) is not modelled; the report file
  and the debug log are. The calls that read the size and the time stamps of an
  entry are taken to succeed, as \<^verbatim>\<open>os.path.isfile\<close> did on the same path; the only
  failure of the environment in the model is the \<^verbatim>\<open>IOError\<close> of \<^verbatim>\<open>open\<close>.
\<close>

subsection \<open>Values\<close>

datatype date = Strftime string nat

datatype pynone = PyNone

datatype error = UnboundLocalError

text \<open>
  One entry of the walk: \<open>path\<close> is \<^verbatim>\<open>os.path.join(root, file)\<close>, \<open>file_name\<close> is \<^verbatim>\<open>file\<close>,
  \<open>isfile\<close> and \<open>getsize\<close> are what \<^verbatim>\<open>os.path.isfile\<close> and \<^verbatim>\<open>os.path.getsize\<close> return for
  the path, \<open>readable\<close> says whether \<^verbatim>\<open>open(path)\<close> and the read succeed, \<open>content\<close> is
  the bytes of the file, \<open>getctime\<close> and \<open>getmtime\<close> are the two time stamps, and
  \<open>now\<close> is the clock while the entry is processed.
\<close>

record entry =
  path :: string
  file_name :: string
  isfile :: bool
  getsize :: nat
  readable :: bool
  content :: string
  getctime :: nat
  getmtime :: nat
  now :: nat

text \<open>
  The dictionary literal built at lines 289-296 and 311-318, with its eight keys.
  A checksum is \<open>None\<close> when \<^verbatim>\<open>createChecksum\<close> caught an \<^verbatim>\<open>IOError\<close>.
\<close>

record filerec =
  rec_fullPath :: string
  rec_modDate :: date
  rec_dupNumber :: nat
  rec_searchDate :: date
  rec_checksum :: "string option"
  rec_bytes :: nat
  rec_fileType :: pynone
  rec_fileExt :: string

text \<open>
  The instance fields. \<open>checksum_cache_value\<close> is \<open>None\<close> while it is the empty
  dictionary of the constructor; \<open>byte_cache\<close> is a dictionary whose values are all
  \<^verbatim>\<open>None\<close>, so only its key set is kept; \<open>byte_size\<close> is \<open>None\<close> until the attribute is
  first assigned. The key of \<open>checksum_cache_key\<close> is a checksum, \<open>None\<close> included.
\<close>

record liten =
  byte_size :: "nat option"
  checksum_cache_key :: "string option \<rightharpoonup> filerec"
  checksum_cache_value :: "filerec option"
  confirmed_dup_key :: "string \<rightharpoonup> filerec option"
  byte_cache :: "nat set"

datatype report_line =
  Text string
  | Row string string nat date

datatype logmsg =
  Doing_checksum string
  | Length_of_byte_size "nat set"

text \<open>
  The local variables of \<^verbatim>\<open>diskWalker\<close> that outlive one loop iteration, together with
  the lines written to the report and to the debug log. A local that is read in
  the match branch but assigned only in the register branch is \<open>None\<close> while unbound.
\<close>

record frame =
  report :: "report_line list"
  debug_log :: "logmsg list"
  dupNumber :: nat
  byte_count :: nat
  record_count :: nat
  modDate :: "date option"
  searchDate :: "date option"
  fileType :: "pynone option"
  fileExt :: "string option"

subsection \<open>Helper methods\<close>

definition LitenBaseClass_init :: liten where
  "LitenBaseClass_init =
     \<lparr>byte_size = None,
      checksum_cache_key = Map.empty,
      checksum_cache_value = None,
      confirmed_dup_key = Map.empty,
      byte_cache = {}\<rparr>"

definition date_format :: string where
  "date_format = ''%m/%d/%Y %I:%M:%S %p''"

definition makeModDate :: "entry \<Rightarrow> date" where
  "makeModDate e = Strftime date_format (getmtime e)"

definition makeCreateDate :: "entry \<Rightarrow> date" where
  "makeCreateDate e = Strftime date_format (getctime e)"

definition createChecksum :: "(string \<Rightarrow> string) \<Rightarrow> entry \<Rightarrow> string option" where
  "createChecksum md5 e = (if readable e then Some (md5 (content e)) else None)"

definition createSearchDate :: "entry \<Rightarrow> date" where
  "createSearchDate e = Strftime ''%Y%m%d'' (now e)"

text \<open>\<^verbatim>\<open>str.rfind\<close>: the index of the last occurrence, or \<open>-1\<close>.\<close>

definition rfind :: "string \<Rightarrow> char \<Rightarrow> int" where
  "rfind p c =
     (if c \<in> set p
      then int (length p) - 1 - int (length (takeWhile (\<lambda>x. x \<noteq> c) (rev p)))
      else - 1)"

text \<open>\<^verbatim>\<open>os.path.splitext\<close> of Python 2.7 on a POSIX system.\<close>

definition splitext :: "string \<Rightarrow> string \<times> string" where
  "splitext p =
     (let sepIndex = rfind p (CHR ''/'');
          dotIndex = rfind p (CHR ''.'')
      in if dotIndex > sepIndex \<and>
            list_ex (\<lambda>ch. ch \<noteq> CHR ''.'')
              (take (nat (dotIndex - (sepIndex + 1))) (drop (nat (sepIndex + 1)) p))
         then (take (nat dotIndex) p, drop (nat dotIndex) p)
         else (p, ''''))"

definition createExt :: "string \<Rightarrow> string" where
  "createExt f = snd (splitext f)"

subsection \<open>diskWalker\<close>

definition heading :: string where
  "heading = ''Duplicate Version,     Path,       Size,       ModDate''"

text \<open>
  Lines 256-297: the checksum is a key of \<open>checksum_cache_key\<close> and \<open>orig\<close> is the
  record stored there. The record of the duplicate reads the locals \<^verbatim>\<open>modDate\<close>,
  \<^verbatim>\<open>searchDate\<close>, \<^verbatim>\<open>fileType\<close> and \<^verbatim>\<open>fileExt\<close>, in the order of the dictionary literal;
  reading an unbound one raises.
\<close>

definition match_branch ::
  "liten \<Rightarrow> frame \<Rightarrow> entry \<Rightarrow> string option \<Rightarrow> filerec \<Rightarrow> nat \<Rightarrow> error + liten \<times> frame" where
  "match_branch s l e checksum orig bsize =
     (let l1 = l\<lparr>byte_count := byte_count l + bsize, dupNumber := dupNumber l + 1\<rparr>;
          orig_path = rec_fullPath orig;
          orig_mod_date = rec_modDate orig;
          l2 = l1\<lparr>report := report l1 @
                 [Text heading, Row ''Original'' orig_path (bsize div 1048576) orig_mod_date]\<rparr>;
          dupeModDate = makeCreateDate e;
          l3 = l2\<lparr>report := report l2 @
                 [Row ''Duplicate'' (path e) (bsize div 1048576) dupeModDate]\<rparr>;
          s1 = s\<lparr>confirmed_dup_key :=
                 (confirmed_dup_key s)(orig_path \<mapsto> checksum_cache_value s)\<rparr>
      in case modDate l3 of
           None \<Rightarrow> Inl UnboundLocalError
         | Some md \<Rightarrow>
        (case searchDate l3 of
           None \<Rightarrow> Inl UnboundLocalError
         | Some sd \<Rightarrow>
        (case fileType l3 of
           None \<Rightarrow> Inl UnboundLocalError
         | Some ft \<Rightarrow>
        (case fileExt l3 of
           None \<Rightarrow> Inl UnboundLocalError
         | Some fe \<Rightarrow>
             Inr (s1\<lparr>confirmed_dup_key := (confirmed_dup_key s1)(path e \<mapsto>
                    Some \<lparr>rec_fullPath = path e,
                          rec_modDate = md,
                          rec_dupNumber = dupNumber l3,
                          rec_searchDate = sd,
                          rec_checksum = checksum,
                          rec_bytes = bsize,
                          rec_fileType = ft,
                          rec_fileExt = fe\<rparr>)\<rparr>, l3)))))"

text \<open>Lines 303-320: the checksum is not a key of \<open>checksum_cache_key\<close>.\<close>

definition register_branch ::
  "(string \<Rightarrow> string) \<Rightarrow> liten \<Rightarrow> frame \<Rightarrow> entry \<Rightarrow> nat \<Rightarrow> liten \<times> frame" where
  "register_branch md5 s l e bsize =
     (let checksum = createChecksum md5 e;
          l1 = l\<lparr>modDate := Some (makeCreateDate e),
                 searchDate := Some (createSearchDate e),
                 fileExt := Some (createExt (file_name e)),
                 fileType := Some PyNone\<rparr>;
          v = \<lparr>rec_fullPath = path e,
               rec_modDate = makeCreateDate e,
               rec_dupNumber = dupNumber l1,
               rec_searchDate = createSearchDate e,
               rec_checksum = checksum,
               rec_bytes = bsize,
               rec_fileType = PyNone,
               rec_fileExt = createExt (file_name e)\<rparr>
      in (s\<lparr>checksum_cache_value := Some v,
            checksum_cache_key := (checksum_cache_key s)(checksum \<mapsto> v)\<rparr>, l1))"

text \<open>Lines 241-324: the body of the inner loop, for one entry.\<close>

definition loop_body ::
  "(string \<Rightarrow> string) \<Rightarrow> nat \<Rightarrow> liten \<times> frame \<Rightarrow> entry \<Rightarrow> error + liten \<times> frame" where
  "loop_body md5 byteSizeThreshold st e =
     (let s = fst st; l = snd st in
      if isfile e then
        (let bsize = getsize e;
             s1 = s\<lparr>byte_size := Some bsize\<rparr>;
             l1 = l\<lparr>record_count := record_count l + 1\<rparr>
         in if bsize \<ge> byteSizeThreshold then
              (if bsize \<in> byte_cache s1 then
                 (let l2 = l1\<lparr>debug_log := debug_log l1 @ [Doing_checksum (path e)]\<rparr>;
                      checksum = createChecksum md5 e
                  in case checksum_cache_key s1 checksum of
                       Some orig \<Rightarrow> match_branch s1 l2 e checksum orig bsize
                     | None \<Rightarrow> Inr (register_branch md5 s1 l2 e bsize))
               else
                 Inr (s1\<lparr>byte_cache := insert bsize (byte_cache s1)\<rparr>,
                      l1\<lparr>debug_log := debug_log l1 @ [Length_of_byte_size (byte_cache s1)]\<rparr>))
            else Inr (s1, l1))
      else Inr (s, l))"

text \<open>The two nested loops of lines 239-240, stopped by the first exception.\<close>

fun walk ::
  "(string \<Rightarrow> string) \<Rightarrow> nat \<Rightarrow> liten \<times> frame \<Rightarrow> entry list \<Rightarrow> error + liten \<times> frame" where
  "walk md5 byteSizeThreshold st [] = Inr st"
| "walk md5 byteSizeThreshold st (e # es) =
     (case loop_body md5 byteSizeThreshold st e of
        Inl err \<Rightarrow> Inl err
      | Inr st' \<Rightarrow> walk md5 byteSizeThreshold st' es)"

text \<open>Lines 227-232: the locals at the start of every call.\<close>

definition new_frame :: frame where
  "new_frame =
     \<lparr>report = [], debug_log = [], dupNumber = 0, byte_count = 0, record_count = 0,
      modDate = None, searchDate = None, fileType = None, fileExt = None\<rparr>"

text \<open>
  \<^verbatim>\<open>diskWalker\<close> on the instance \<open>self\<close>: the result is the instance and the frame at
  the \<^verbatim>\<open>return\<close>; the value returned is \<open>confirmed_dup_key\<close> of that instance.
\<close>

definition diskWalker ::
  "(string \<Rightarrow> string) \<Rightarrow> nat \<Rightarrow> liten \<Rightarrow> entry list \<Rightarrow> error + liten \<times> frame" where
  "diskWalker md5 byteSizeThreshold self es = walk md5 byteSizeThreshold (self, new_frame) es"

subsection \<open>Vocabulary of the properties\<close>

text \<open>
  The record that the register branch stores for entry \<open>e\<close> when the duplicate counter
  stands at \<open>d\<close>.
\<close>

definition file_record :: "(string \<Rightarrow> string) \<Rightarrow> entry \<Rightarrow> nat \<Rightarrow> filerec" where
  "file_record md5 e d =
     \<lparr>rec_fullPath = path e,
      rec_modDate = makeCreateDate e,
      rec_dupNumber = d,
      rec_searchDate = createSearchDate e,
      rec_checksum = createChecksum md5 e,
      rec_bytes = getsize e,
      rec_fileType = PyNone,
      rec_fileExt = createExt (file_name e)\<rparr>"

text \<open>
  The entry that most recently took the register branch (lines 303-320), given the
  sizes and checksums seen before the entries \<open>es\<close>; \<open>acc\<close> when there is none.
\<close>

fun last_registered ::
  "(string \<Rightarrow> string) \<Rightarrow> nat \<Rightarrow> nat set \<Rightarrow> string option set \<Rightarrow> entry option \<Rightarrow> entry list
     \<Rightarrow> entry option" where
  "last_registered md5 thr seen keys acc [] = acc"
| "last_registered md5 thr seen keys acc (e # es) =
     (if isfile e \<and> thr \<le> getsize e then
        (if getsize e \<in> seen then
           (if createChecksum md5 e \<in> keys then last_registered md5 thr seen keys acc es
            else last_registered md5 thr seen (insert (createChecksum md5 e) keys) (Some e) es)
         else last_registered md5 thr (insert (getsize e) seen) keys acc es)
      else last_registered md5 thr seen keys acc es)"

text \<open>
  The instance field \<open>checksum_cache_value\<close> and the four locals of the register
  branch are those written for entry \<open>g\<close>; with no such entry they are untouched and
  the checksum cache is empty.
\<close>

definition current :: "(string \<Rightarrow> string) \<Rightarrow> entry option \<Rightarrow> liten \<times> frame \<Rightarrow> bool" where
  "current md5 g st =
     (case g of
        None \<Rightarrow>
          checksum_cache_key (fst st) = Map.empty \<and> checksum_cache_value (fst st) = None \<and>
          modDate (snd st) = None \<and> searchDate (snd st) = None \<and>
          fileType (snd st) = None \<and> fileExt (snd st) = None
      | Some e \<Rightarrow>
          (\<exists>d. checksum_cache_value (fst st) = Some (file_record md5 e d)) \<and>
          modDate (snd st) = Some (makeCreateDate e) \<and>
          searchDate (snd st) = Some (createSearchDate e) \<and>
          fileType (snd st) = Some PyNone \<and>
          fileExt (snd st) = Some (createExt (file_name e)))"

text \<open>Entries for concrete scans, and a stand-in for the digest.\<close>

definition example_file :: "string \<Rightarrow> string \<Rightarrow> bool \<Rightarrow> nat \<Rightarrow> nat \<Rightarrow> entry" where
  "example_file name bytes r ctime mtime =
     \<lparr>path = ''root/'' @ name, file_name = name, isfile = True, getsize = length bytes,
      readable = r, content = bytes, getctime = ctime, getmtime = mtime, now = 1194220800\<rparr>"

definition plain_digest :: "string \<Rightarrow> string" where
  "plain_digest bytes = bytes"

text \<open>
  Library use: \<^verbatim>\<open>diskWalker\<close> called a second time on the same instance, over the same
  entries.
\<close>

definition scan_twice ::
  "(string \<Rightarrow> string) \<Rightarrow> nat \<Rightarrow> liten \<Rightarrow> entry list \<Rightarrow> error + liten \<times> frame" where
  "scan_twice md5 byteSizeThreshold self es =
     (case diskWalker md5 byteSizeThreshold self es of
        Inl err \<Rightarrow> Inl err
      | Inr st \<Rightarrow> diskWalker md5 byteSizeThreshold (fst st) es)"

text \<open>
  The instance at the moment the match branch raises at line 290 on entry \<open>e\<close>:
  line 243 has assigned \<open>byte_size\<close>, and line 282 has stored \<open>checksum_cache_value\<close>
  under the path of the cached record \<open>orig\<close>.
\<close>

definition raised_instance :: "liten \<Rightarrow> entry \<Rightarrow> filerec \<Rightarrow> liten" where
  "raised_instance s e orig =
     s\<lparr>byte_size := Some (getsize e),
       confirmed_dup_key := (confirmed_dup_key s)(rec_fullPath orig \<mapsto> checksum_cache_value s)\<rparr>"

text \<open>
  The instance as the loop leaves it, whether it runs to the end or is left by an
  exception. Only the match branch raises, so at a raise the entry has a cached
  record.
\<close>

fun walk_leaves ::
  "(string \<Rightarrow> string) \<Rightarrow> nat \<Rightarrow> liten \<times> frame \<Rightarrow> entry list \<Rightarrow> liten" where
  "walk_leaves md5 byteSizeThreshold st [] = fst st"
| "walk_leaves md5 byteSizeThreshold st (e # es) =
     (case loop_body md5 byteSizeThreshold st e of
        Inr st' \<Rightarrow> walk_leaves md5 byteSizeThreshold st' es
      | Inl err \<Rightarrow>
          (case checksum_cache_key (fst st) (createChecksum md5 e) of
             Some orig \<Rightarrow> raised_instance (fst st) e orig
           | None \<Rightarrow> fst st))"

text \<open>The instance as a \<^verbatim>\<open>diskWalker\<close> call leaves it, returning or raising.\<close>

definition diskWalker_leaves ::
  "(string \<Rightarrow> string) \<Rightarrow> nat \<Rightarrow> liten \<Rightarrow> entry list \<Rightarrow> liten" where
  "diskWalker_leaves md5 byteSizeThreshold self es =
     walk_leaves md5 byteSizeThreshold (self, new_frame) es"

text \<open>
  The entries that reach \<^verbatim>\<open>createChecksum\<close> at line 252, given the sizes seen before:
  the regular files at or above the threshold whose size an earlier such file had.
\<close>

fun hashed :: "nat \<Rightarrow> nat set \<Rightarrow> entry list \<Rightarrow> entry list" where
  "hashed thr seen [] = []"
| "hashed thr seen (e # es) =
     (if isfile e \<and> thr \<le> getsize e then
        (if getsize e \<in> seen then e # hashed thr seen es
         else hashed thr (insert (getsize e) seen) es)
      else hashed thr seen es)"

fun checksum_msg :: "logmsg \<Rightarrow> bool" where
  "checksum_msg (Doing_checksum p) = True"
| "checksum_msg (Length_of_byte_size c) = False"

text \<open>
  A state with the two places cleared that a file below the threshold touches:
  the attribute \<open>byte_size\<close> and the counter \<open>record_count\<close>.
\<close>

definition forget_count :: "liten \<times> frame \<Rightarrow> liten \<times> frame" where
  "forget_count st = ((fst st)\<lparr>byte_size := None\<rparr>, (snd st)\<lparr>record_count := 0\<rparr>)"

text \<open>
  What a scan can see of the tree at an entry, as opposed to the time stamps of the
  entry and the clock.
\<close>

definition tree_view :: "entry \<Rightarrow> string \<times> string \<times> bool \<times> nat \<times> bool \<times> string" where
  "tree_view e = (path e, file_name e, isfile e, getsize e, readable e, content e)"

text \<open>
  The times of an entry rewritten: the change time passed through \<open>t\<close>, the
  modification time and the clock set to zero; and the rendered dates rewritten
  accordingly in a record, a report line and a state. With \<open>\<lambda>n. 0\<close> for \<open>t\<close> all dates
  are set aside; with \<open>\<lambda>n. n\<close> only the search date is.
\<close>

fun map_date :: "(nat \<Rightarrow> nat) \<Rightarrow> date \<Rightarrow> date" where
  "map_date t (Strftime fmt n) = Strftime fmt (t n)"

definition retimed_entry :: "(nat \<Rightarrow> nat) \<Rightarrow> entry \<Rightarrow> entry" where
  "retimed_entry t e = e\<lparr>getctime := t (getctime e), getmtime := 0, now := 0\<rparr>"

definition retimed_record :: "(nat \<Rightarrow> nat) \<Rightarrow> filerec \<Rightarrow> filerec" where
  "retimed_record t r =
     r\<lparr>rec_modDate := map_date t (rec_modDate r),
       rec_searchDate := map_date (\<lambda>n. 0) (rec_searchDate r)\<rparr>"

fun retimed_line :: "(nat \<Rightarrow> nat) \<Rightarrow> report_line \<Rightarrow> report_line" where
  "retimed_line t (Text h) = Text h"
| "retimed_line t (Row v p m d) = Row v p m (map_date t d)"

definition retimed :: "(nat \<Rightarrow> nat) \<Rightarrow> liten \<times> frame \<Rightarrow> liten \<times> frame" where
  "retimed t st =
     ((fst st)\<lparr>checksum_cache_key := map_option (retimed_record t) \<circ> checksum_cache_key (fst st),
        checksum_cache_value := map_option (retimed_record t) (checksum_cache_value (fst st)),
        confirmed_dup_key :=
          map_option (map_option (retimed_record t)) \<circ> confirmed_dup_key (fst st)\<rparr>,
      (snd st)\<lparr>report := map (retimed_line t) (report (snd st)),
        modDate := map_option (map_date t) (modDate (snd st)),
        searchDate := map_option (map_date (\<lambda>n. 0)) (searchDate (snd st))\<rparr>)"

section \<open>Properties\<close>

subsection \<open>The branches of the loop body\<close>

lemma file_record_sel:
  "rec_fullPath (file_record md5 e d) = path e"
  "rec_modDate (file_record md5 e d) = makeCreateDate e"
  "rec_dupNumber (file_record md5 e d) = d"
  "rec_searchDate (file_record md5 e d) = createSearchDate e"
  "rec_checksum (file_record md5 e d) = createChecksum md5 e"
  "rec_bytes (file_record md5 e d) = getsize e"
  "rec_fileType (file_record md5 e d) = PyNone"
  "rec_fileExt (file_record md5 e d) = createExt (file_name e)"
  by (simp_all add: file_record_def)

lemma loop_body_skip: "\<not> isfile e \<Longrightarrow> loop_body md5 thr st e = Inr st"
  by (simp add: loop_body_def Let_def)

lemma loop_body_small:
  "isfile e \<Longrightarrow> getsize e < thr \<Longrightarrow>
   loop_body md5 thr (s, l) e =
     Inr (s\<lparr>byte_size := Some (getsize e)\<rparr>, l\<lparr>record_count := record_count l + 1\<rparr>)"
  by (simp add: loop_body_def Let_def)

lemma loop_body_first:
  "isfile e \<Longrightarrow> thr \<le> getsize e \<Longrightarrow> getsize e \<notin> byte_cache s \<Longrightarrow>
   loop_body md5 thr (s, l) e =
     Inr (s\<lparr>byte_size := Some (getsize e), byte_cache := insert (getsize e) (byte_cache s)\<rparr>,
          l\<lparr>record_count := record_count l + 1,
            debug_log := debug_log l @ [Length_of_byte_size (byte_cache s)]\<rparr>)"
  by (simp add: loop_body_def Let_def)

lemma loop_body_register:
  "isfile e \<Longrightarrow> thr \<le> getsize e \<Longrightarrow> getsize e \<in> byte_cache s \<Longrightarrow>
   checksum_cache_key s (createChecksum md5 e) = None \<Longrightarrow>
   loop_body md5 thr (s, l) e =
     Inr (register_branch md5 (s\<lparr>byte_size := Some (getsize e)\<rparr>)
            (l\<lparr>record_count := record_count l + 1,
              debug_log := debug_log l @ [Doing_checksum (path e)]\<rparr>) e (getsize e))"
  by (simp add: loop_body_def Let_def)

lemma loop_body_match:
  "isfile e \<Longrightarrow> thr \<le> getsize e \<Longrightarrow> getsize e \<in> byte_cache s \<Longrightarrow>
   checksum_cache_key s (createChecksum md5 e) = Some orig \<Longrightarrow>
   loop_body md5 thr (s, l) e =
     match_branch (s\<lparr>byte_size := Some (getsize e)\<rparr>)
       (l\<lparr>record_count := record_count l + 1,
         debug_log := debug_log l @ [Doing_checksum (path e)]\<rparr>)
       e (createChecksum md5 e) orig (getsize e)"
  by (simp add: loop_body_def Let_def)

lemma register_branch_eq:
  "n = getsize e \<Longrightarrow> register_branch md5 s l e n =
     (s\<lparr>checksum_cache_value := Some (file_record md5 e (dupNumber l)),
        checksum_cache_key :=
          (checksum_cache_key s)(createChecksum md5 e \<mapsto> file_record md5 e (dupNumber l))\<rparr>,
      l\<lparr>modDate := Some (makeCreateDate e),
        searchDate := Some (createSearchDate e),
        fileExt := Some (createExt (file_name e)),
        fileType := Some PyNone\<rparr>)"
  by (simp add: register_branch_def file_record_def Let_def)

lemma match_branch_bound:
  "modDate l = Some md \<Longrightarrow> searchDate l = Some sd \<Longrightarrow> fileType l = Some ft \<Longrightarrow>
   fileExt l = Some fe \<Longrightarrow>
   match_branch s l e c orig n =
     Inr (s\<lparr>confirmed_dup_key := (confirmed_dup_key s)
             (rec_fullPath orig \<mapsto> checksum_cache_value s,
              path e \<mapsto> Some \<lparr>rec_fullPath = path e, rec_modDate = md,
                rec_dupNumber = dupNumber l + 1, rec_searchDate = sd, rec_checksum = c,
                rec_bytes = n, rec_fileType = ft, rec_fileExt = fe\<rparr>)\<rparr>,
          l\<lparr>byte_count := byte_count l + n, dupNumber := dupNumber l + 1,
            report := report l @
              [Text heading, Row ''Original'' (rec_fullPath orig) (n div 1048576) (rec_modDate orig),
               Row ''Duplicate'' (path e) (n div 1048576) (makeCreateDate e)]\<rparr>)"
  by (simp add: match_branch_def Let_def)

lemma match_branch_unbound:
  "modDate l = None \<Longrightarrow> match_branch s l e c orig n = Inl UnboundLocalError"
  by (simp add: match_branch_def Let_def)

lemma loop_body_current:
  assumes "current md5 g (s, l)"
  shows "\<exists>st'. loop_body md5 thr (s, l) e = Inr st' \<and>
           current md5 (last_registered md5 thr (byte_cache s) (dom (checksum_cache_key s)) g [e]) st'"
proof (cases "isfile e \<and> thr \<le> getsize e")
  case False
  then show ?thesis using assms
    by (cases "isfile e") (auto simp: loop_body_skip loop_body_small current_def split: option.splits)
next
  case big: True
  show ?thesis
  proof (cases "getsize e \<in> byte_cache s")
    case False
    then show ?thesis using assms big
      by (auto simp: loop_body_first current_def split: option.splits)
  next
    case seen: True
    show ?thesis
    proof (cases "checksum_cache_key s (createChecksum md5 e)")
      case None
      then show ?thesis using assms big seen
        by (auto simp: loop_body_register register_branch_eq current_def domIff split: option.splits)
    next
      case (Some orig)
      then obtain g' where g: "g = Some g'" using assms
        by (cases g) (auto simp: current_def)
      show ?thesis using assms big seen Some g
        by (auto simp: loop_body_match match_branch_bound current_def domIff)
    qed
  qed
qed


lemma last_registered_step:
  "last_registered md5 thr seen keys acc (e # es) =
     last_registered md5 thr
       (if isfile e \<and> thr \<le> getsize e then insert (getsize e) seen else seen)
       (if isfile e \<and> thr \<le> getsize e \<and> getsize e \<in> seen
        then insert (createChecksum md5 e) keys else keys)
       (last_registered md5 thr seen keys acc [e]) es"
  by (auto simp: insert_absorb)

lemma loop_body_byte_cache:
  "loop_body md5 thr (s, l) e = Inr (s', l') \<Longrightarrow>
   byte_cache s' = (if isfile e \<and> thr \<le> getsize e then insert (getsize e) (byte_cache s)
                    else byte_cache s)"
  by (auto simp: loop_body_def Let_def match_branch_def register_branch_def insert_absorb
      split: if_splits option.splits)

lemma loop_body_keys:
  "loop_body md5 thr (s, l) e = Inr (s', l') \<Longrightarrow>
   dom (checksum_cache_key s') =
     (if isfile e \<and> thr \<le> getsize e \<and> getsize e \<in> byte_cache s
      then insert (createChecksum md5 e) (dom (checksum_cache_key s))
      else dom (checksum_cache_key s))"
  by (auto simp: loop_body_def Let_def match_branch_def register_branch_def
      split: if_splits option.splits)

lemma walk_current:
  "current md5 g st \<Longrightarrow>
   \<exists>st'. walk md5 thr st es = Inr st' \<and>
     current md5
       (last_registered md5 thr (byte_cache (fst st)) (dom (checksum_cache_key (fst st))) g es) st'"
proof (induction es arbitrary: g st)
  case Nil
  then show ?case by simp
next
  case (Cons e es)
  obtain s l where st: "st = (s, l)" by (cases st)
  from loop_body_current [of md5 g s l thr e] Cons.prems st
  obtain s1 l1 where
    step: "loop_body md5 thr (s, l) e = Inr (s1, l1)" and
    cur: "current md5 (last_registered md5 thr (byte_cache s) (dom (checksum_cache_key s)) g [e])
            (s1, l1)"
    by auto
  from Cons.IH [OF cur, of ] obtain st' where
    w: "walk md5 thr (s1, l1) es = Inr st'" and
    c: "current md5
          (last_registered md5 thr (byte_cache s1) (dom (checksum_cache_key s1))
             (last_registered md5 thr (byte_cache s) (dom (checksum_cache_key s)) g [e]) es) st'"
    by auto
  have "walk md5 thr st (e # es) = Inr st'"
    using st step w by simp
  moreover have eq: "last_registered md5 thr (byte_cache s) (dom (checksum_cache_key s)) g (e # es) =
      last_registered md5 thr (byte_cache s1) (dom (checksum_cache_key s1))
        (last_registered md5 thr (byte_cache s) (dom (checksum_cache_key s)) g [e]) es"
    by (subst last_registered_step)
      (simp only: loop_body_byte_cache [OF step] loop_body_keys [OF step])
  have "current md5
     (last_registered md5 thr (byte_cache (fst st)) (dom (checksum_cache_key (fst st))) g (e # es)) st'"
    unfolding st fst_conv eq by (rule c)
  ultimately show ?case by blast
qed

lemma current_init: "current md5 None (LitenBaseClass_init, new_frame)"
  by (simp add: current_def LitenBaseClass_init_def new_frame_def)

lemma diskWalker_returns:
  "\<exists>s l. diskWalker md5 thr LitenBaseClass_init es = Inr (s, l) \<and>
     current md5 (last_registered md5 thr {} {} None es) (s, l)"
  using walk_current [OF current_init, of md5 thr es]
  by (auto simp: diskWalker_def LitenBaseClass_init_def)

lemma walk_filter_isfile: "walk md5 thr st (filter isfile es) = walk md5 thr st es"
  by (induction es arbitrary: st) (auto simp add: loop_body_skip split: sum.splits)

lemma walk_append:
  "walk md5 thr st (xs @ ys) =
     (case walk md5 thr st xs of Inl err \<Rightarrow> Inl err | Inr st' \<Rightarrow> walk md5 thr st' ys)"
  by (induction xs arbitrary: st) (auto split: sum.splits)


text \<open>The equations that evaluate a scan of concrete entries.\<close>

lemmas eval_scan =
  diskWalker_def loop_body_def match_branch_def register_branch_def Let_def
  LitenBaseClass_init_def new_frame_def example_file_def createChecksum_def
  makeCreateDate_def makeModDate_def createSearchDate_def plain_digest_def
  createExt_def splitext_def rfind_def file_record_def

subsection \<open>Three identical files\<close>

text \<open>
  C1. When the regular files of the tree are exactly three files \<open>a\<close>, \<open>b\<close>, \<open>c\<close>
  (in the order examined) of one size at or above the threshold and of identical
  content, and the two that are hashed can be read, \<^verbatim>\<open>diskWalker\<close> on a fresh
  instance returns with exactly one duplicate found: the report holds one
  Original/Duplicate pair, \<open>b\<close> as the original and \<open>c\<close> as the duplicate, the
  registry holds the two paths, and the wasted-byte total is the size of one file.
\<close>

theorem three_identical_files_one_record:
  assumes files: "filter isfile es = [a, b, c]"
    and sizes: "getsize a = n" "getsize b = n" "getsize c = n"
    and thr: "byteSizeThreshold \<le> n"
    and rd: "readable b" "readable c"
    and same: "content a = content b" "content b = content c"
  shows "\<exists>s l. diskWalker md5 byteSizeThreshold LitenBaseClass_init es = Inr (s, l) \<and>
      report l =
        [Text heading,
         Row ''Original'' (path b) (n div 1048576) (makeCreateDate b),
         Row ''Duplicate'' (path c) (n div 1048576) (makeCreateDate c)] \<and>
      dupNumber l = 1 \<and> byte_count l = n \<and>
      confirmed_dup_key s =
        [path b \<mapsto> Some (file_record md5 b 0),
         path c \<mapsto> Some \<lparr>rec_fullPath = path c, rec_modDate = makeCreateDate b,
           rec_dupNumber = 1, rec_searchDate = createSearchDate b,
           rec_checksum = Some (md5 (content c)), rec_bytes = n, rec_fileType = PyNone,
           rec_fileExt = createExt (file_name b)\<rparr>]"
proof -
  have "set (filter isfile es) = {a, b, c}"
    using files by simp
  then have reg: "isfile a" "isfile b" "isfile c"
    by auto
  have ck: "createChecksum md5 c = createChecksum md5 b"
    using rd same by (simp add: createChecksum_def)
  have "diskWalker md5 byteSizeThreshold LitenBaseClass_init es =
      walk md5 byteSizeThreshold (LitenBaseClass_init, new_frame) [a, b, c]"
    using walk_filter_isfile [of md5 byteSizeThreshold _ es] files
    by (simp add: diskWalker_def)
  then show ?thesis
    using reg sizes thr ck rd
    by (simp add: loop_body_first loop_body_register register_branch_eq loop_body_match
        match_branch_bound LitenBaseClass_init_def new_frame_def createChecksum_def
        file_record_sel)
qed

theorem three_identical_files_one_record_witness:
  "\<exists>s l. diskWalker plain_digest 1 LitenBaseClass_init
       [example_file ''a.txt'' ''XXXXX'' True 10 20,
        example_file ''b.txt'' ''XXXXX'' True 11 21,
        example_file ''c.txt'' ''XXXXX'' True 12 22] = Inr (s, l) \<and>
     report l =
       [Text heading,
        Row ''Original'' ''root/b.txt'' 0 (Strftime date_format 11),
        Row ''Duplicate'' ''root/c.txt'' 0 (Strftime date_format 12)] \<and>
     dupNumber l = 1 \<and> byte_count l = 5 \<and>
     dom (confirmed_dup_key s) = {''root/b.txt'', ''root/c.txt''}"
  using three_identical_files_one_record
    [of "[example_file ''a.txt'' ''XXXXX'' True 10 20,
          example_file ''b.txt'' ''XXXXX'' True 11 21,
          example_file ''c.txt'' ''XXXXX'' True 12 22]"
        "example_file ''a.txt'' ''XXXXX'' True 10 20"
        "example_file ''b.txt'' ''XXXXX'' True 11 21"
        "example_file ''c.txt'' ''XXXXX'' True 12 22" 5 1 plain_digest]
  by (auto simp: example_file_def makeCreateDate_def)

subsection \<open>Two identical files\<close>

text \<open>
  C2. When the regular files of the tree are exactly two files \<open>a\<close>, \<open>b\<close> (in the
  order examined) of one size at or above the threshold and of identical content,
  \<^verbatim>\<open>diskWalker\<close> on a fresh instance returns an empty registry and writes no report
  line: the debug log shows that only \<open>b\<close> was hashed, and the checksum cache holds
  the single record of \<open>b\<close> under the checksum of \<open>b\<close>.
\<close>

theorem two_identical_files_not_detected:
  assumes files: "filter isfile es = [a, b]"
    and sizes: "getsize a = n" "getsize b = n"
    and thr: "byteSizeThreshold \<le> n"
    and same: "content a = content b"
  shows "diskWalker md5 byteSizeThreshold LitenBaseClass_init es =
      Inr (\<lparr>byte_size = Some n,
            checksum_cache_key = [createChecksum md5 b \<mapsto> file_record md5 b 0],
            checksum_cache_value = Some (file_record md5 b 0),
            confirmed_dup_key = Map.empty,
            byte_cache = {n}\<rparr>,
           \<lparr>report = [],
            debug_log = [Length_of_byte_size {}, Doing_checksum (path b)],
            dupNumber = 0, byte_count = 0, record_count = 2,
            modDate = Some (makeCreateDate b),
            searchDate = Some (createSearchDate b),
            fileType = Some PyNone,
            fileExt = Some (createExt (file_name b))\<rparr>)"
proof -
  have "set (filter isfile es) = {a, b}"
    using files by simp
  then have reg: "isfile a" "isfile b"
    by auto
  have "diskWalker md5 byteSizeThreshold LitenBaseClass_init es =
      walk md5 byteSizeThreshold (LitenBaseClass_init, new_frame) [a, b]"
    using walk_filter_isfile [of md5 byteSizeThreshold _ es] files
    by (simp add: diskWalker_def)
  then show ?thesis
    using reg sizes thr
    by (simp add: loop_body_first loop_body_register register_branch_eq
        LitenBaseClass_init_def new_frame_def)
qed

theorem two_identical_files_not_detected_witness:
  "diskWalker plain_digest 1 LitenBaseClass_init
     [example_file ''a.txt'' ''XXXXX'' True 10 20,
      example_file ''b.txt'' ''XXXXX'' True 11 21] =
   Inr (\<lparr>byte_size = Some 5,
         checksum_cache_key =
           [Some ''XXXXX'' \<mapsto>
              file_record plain_digest (example_file ''b.txt'' ''XXXXX'' True 11 21) 0],
         checksum_cache_value =
           Some (file_record plain_digest (example_file ''b.txt'' ''XXXXX'' True 11 21) 0),
         confirmed_dup_key = Map.empty,
         byte_cache = {5}\<rparr>,
        \<lparr>report = [],
         debug_log = [Length_of_byte_size {}, Doing_checksum ''root/b.txt''],
         dupNumber = 0, byte_count = 0, record_count = 2,
         modDate = Some (Strftime date_format 11),
         searchDate = Some (Strftime ''%Y%m%d'' 1194220800),
         fileType = Some PyNone,
         fileExt = Some ''.txt''\<rparr>)"
  using two_identical_files_not_detected
    [of "[example_file ''a.txt'' ''XXXXX'' True 10 20,
          example_file ''b.txt'' ''XXXXX'' True 11 21]"
        "example_file ''a.txt'' ''XXXXX'' True 10 20"
        "example_file ''b.txt'' ''XXXXX'' True 11 21" 5 1 plain_digest]
  by (simp add: example_file_def makeCreateDate_def createSearchDate_def createChecksum_def
      plain_digest_def createExt_def splitext_def rfind_def)

subsection \<open>Files that cannot be read\<close>

text \<open>
  C3. The scan, with any digest, at a tree of three five-byte files of which the
  second and third cannot be opened: \<^verbatim>\<open>createChecksum\<close> returns \<^verbatim>\<open>None\<close> for both,
  the second file is registered in the checksum cache under the key \<^verbatim>\<open>None\<close>, the
  third matches it, and both are entered in the report and in the registry as
  original and duplicate.
\<close>

theorem unreadable_files_are_paired:
  "map_sum id (\<lambda>st. (report (snd st), checksum_cache_key (fst st) None,
       confirmed_dup_key (fst st) ''root/b.txt'', confirmed_dup_key (fst st) ''root/c.txt''))
     (diskWalker md5 1 LitenBaseClass_init
        [example_file ''a.txt'' ''XXXXX'' True 10 20,
         example_file ''b.txt'' ''XXXXX'' False 11 21,
         example_file ''c.txt'' ''XXXXX'' False 12 22]) =
   Inr ([Text heading,
         Row ''Original'' ''root/b.txt'' 0 (Strftime date_format 11),
         Row ''Duplicate'' ''root/c.txt'' 0 (Strftime date_format 12)],
        Some \<lparr>rec_fullPath = ''root/b.txt'', rec_modDate = Strftime date_format 11,
          rec_dupNumber = 0, rec_searchDate = Strftime ''%Y%m%d'' 1194220800,
          rec_checksum = None, rec_bytes = 5, rec_fileType = PyNone, rec_fileExt = ''.txt''\<rparr>,
        Some (Some \<lparr>rec_fullPath = ''root/b.txt'', rec_modDate = Strftime date_format 11,
          rec_dupNumber = 0, rec_searchDate = Strftime ''%Y%m%d'' 1194220800,
          rec_checksum = None, rec_bytes = 5, rec_fileType = PyNone, rec_fileExt = ''.txt''\<rparr>),
        Some (Some \<lparr>rec_fullPath = ''root/c.txt'', rec_modDate = Strftime date_format 11,
          rec_dupNumber = 1, rec_searchDate = Strftime ''%Y%m%d'' 1194220800,
          rec_checksum = None, rec_bytes = 5, rec_fileType = PyNone, rec_fileExt = ''.txt''\<rparr>))"
  by (simp add: eval_scan)

text \<open>
  C4. The scan, with any digest, at a tree of three five-byte files of which the
  second and third cannot be opened and differ in content: they have the same
  size, their contents differ, and the report pairs them as original and
  duplicate.
\<close>

theorem unreadable_files_of_different_content_are_paired:
  "getsize (example_file ''b.bin'' ''XXXXX'' False 11 21) =
     getsize (example_file ''c.bin'' ''YYYYY'' False 12 22) \<and>
   content (example_file ''b.bin'' ''XXXXX'' False 11 21) \<noteq>
     content (example_file ''c.bin'' ''YYYYY'' False 12 22) \<and>
   map_sum id (\<lambda>st. (report (snd st), dupNumber (snd st), byte_count (snd st)))
     (diskWalker md5 1 LitenBaseClass_init
        [example_file ''a.bin'' ''AAAAA'' True 10 20,
         example_file ''b.bin'' ''XXXXX'' False 11 21,
         example_file ''c.bin'' ''YYYYY'' False 12 22]) =
   Inr ([Text heading,
         Row ''Original'' ''root/b.bin'' 0 (Strftime date_format 11),
         Row ''Duplicate'' ''root/c.bin'' 0 (Strftime date_format 12)], 1, 5)"
  by (simp add: eval_scan)

subsection \<open>The dates of the report\<close>

text \<open>
  C7. The scan, with any digest, at a tree of three identical files whose change
  time (\<^verbatim>\<open>getctime\<close>) differs from their modification time (\<^verbatim>\<open>getmtime\<close>): the
  Original and the Duplicate line of the report carry what \<^verbatim>\<open>makeCreateDate\<close>
  renders, which is not what \<^verbatim>\<open>makeModDate\<close> renders for these files, and the
  registry entry of the duplicate carries the creation date of the original.
\<close>

theorem report_dates_are_creation_dates:
  "map_sum id (\<lambda>st. (report (snd st),
       map_option (map_option rec_modDate) (confirmed_dup_key (fst st) ''root/c.txt'')))
     (diskWalker md5 1 LitenBaseClass_init
        [example_file ''a.txt'' ''XXXXX'' True 10 20,
         example_file ''b.txt'' ''XXXXX'' True 11 21,
         example_file ''c.txt'' ''XXXXX'' True 12 22]) =
   Inr ([Text heading,
         Row ''Original'' ''root/b.txt'' 0
           (makeCreateDate (example_file ''b.txt'' ''XXXXX'' True 11 21)),
         Row ''Duplicate'' ''root/c.txt'' 0
           (makeCreateDate (example_file ''c.txt'' ''XXXXX'' True 12 22))],
        Some (Some (makeCreateDate (example_file ''b.txt'' ''XXXXX'' True 11 21)))) \<and>
   makeCreateDate (example_file ''b.txt'' ''XXXXX'' True 11 21) \<noteq>
     makeModDate (example_file ''b.txt'' ''XXXXX'' True 11 21) \<and>
   makeCreateDate (example_file ''c.txt'' ''XXXXX'' True 12 22) \<noteq>
     makeModDate (example_file ''c.txt'' ''XXXXX'' True 12 22) \<and>
   makeCreateDate (example_file ''b.txt'' ''XXXXX'' True 11 21) \<noteq>
     makeModDate (example_file ''c.txt'' ''XXXXX'' True 12 22)"
  by (simp add: eval_scan)

subsection \<open>The record of a duplicate\<close>

text \<open>
  C10. Let a scan of a fresh instance have processed the entries \<open>pre\<close>, and let the
  next entry \<open>e\<close> be hashed and match the cached record \<open>orig\<close>. Then some entry \<open>g\<close> of
  \<open>pre\<close> was the last to take the register branch, \<open>checksum_cache_value\<close> is the
  record of \<open>g\<close>, and after \<open>e\<close> the registry holds under the path of \<open>orig\<close> that
  record of \<open>g\<close>, and under the path of \<open>e\<close> a record whose \<open>modDate\<close>, \<open>searchDate\<close>,
  \<open>fileType\<close> and \<open>fileExt\<close> are those of \<open>g\<close>.
\<close>

theorem duplicate_entries_copy_last_registered:
  assumes pre: "diskWalker md5 byteSizeThreshold LitenBaseClass_init pre = Inr (s, l)"
    and big: "isfile e" "byteSizeThreshold \<le> getsize e" "getsize e \<in> byte_cache s"
    and hit: "checksum_cache_key s (createChecksum md5 e) = Some orig"
  shows "\<exists>g d s' l'.
      last_registered md5 byteSizeThreshold {} {} None pre = Some g \<and>
      checksum_cache_value s = Some (file_record md5 g d) \<and>
      diskWalker md5 byteSizeThreshold LitenBaseClass_init (pre @ [e]) = Inr (s', l') \<and>
      confirmed_dup_key s' = (confirmed_dup_key s)
        (rec_fullPath orig \<mapsto> Some (file_record md5 g d),
         path e \<mapsto> Some \<lparr>rec_fullPath = path e, rec_modDate = makeCreateDate g,
           rec_dupNumber = dupNumber l + 1, rec_searchDate = createSearchDate g,
           rec_checksum = createChecksum md5 e, rec_bytes = getsize e,
           rec_fileType = PyNone, rec_fileExt = createExt (file_name g)\<rparr>)"
proof -
  from diskWalker_returns [of md5 byteSizeThreshold pre] pre
  have cur: "current md5 (last_registered md5 byteSizeThreshold {} {} None pre) (s, l)"
    by simp
  have "checksum_cache_key s \<noteq> Map.empty"
    using hit by auto
  with cur obtain g where g: "last_registered md5 byteSizeThreshold {} {} None pre = Some g"
    by (cases "last_registered md5 byteSizeThreshold {} {} None pre") (auto simp: current_def)
  from cur g obtain d where
    v: "checksum_cache_value s = Some (file_record md5 g d)" and
    loc: "modDate l = Some (makeCreateDate g)" "searchDate l = Some (createSearchDate g)"
      "fileType l = Some PyNone" "fileExt l = Some (createExt (file_name g))"
    by (auto simp: current_def)
  have "diskWalker md5 byteSizeThreshold LitenBaseClass_init (pre @ [e]) =
      loop_body md5 byteSizeThreshold (s, l) e"
    using pre by (simp add: diskWalker_def walk_append split: sum.splits)
  then show ?thesis
    using g v loc big hit
    by (intro exI [of _ g] exI [of _ d]) (simp add: loop_body_match match_branch_bound)
qed


theorem duplicate_entries_copy_last_registered_witness:
  "\<exists>s' l'.
     last_registered plain_digest 1 {} {} None
       [example_file ''a.txt'' ''XXXXX'' True 10 20,
        example_file ''b.txt'' ''XXXXX'' True 11 21,
        example_file ''c.dat'' ''YYYYY'' True 12 22] =
       Some (example_file ''c.dat'' ''YYYYY'' True 12 22) \<and>
     diskWalker plain_digest 1 LitenBaseClass_init
       ([example_file ''a.txt'' ''XXXXX'' True 10 20,
         example_file ''b.txt'' ''XXXXX'' True 11 21,
         example_file ''c.dat'' ''YYYYY'' True 12 22] @
        [example_file ''d.txt'' ''XXXXX'' True 13 23]) = Inr (s', l') \<and>
     confirmed_dup_key s' =
       [''root/b.txt'' \<mapsto>
          Some (file_record plain_digest (example_file ''c.dat'' ''YYYYY'' True 12 22) 0),
        ''root/d.txt'' \<mapsto>
          Some \<lparr>rec_fullPath = ''root/d.txt'', rec_modDate = Strftime date_format 12,
            rec_dupNumber = 1, rec_searchDate = Strftime ''%Y%m%d'' 1194220800,
            rec_checksum = Some ''XXXXX'', rec_bytes = 5,
            rec_fileType = PyNone, rec_fileExt = ''.dat''\<rparr>]"
proof -
  let ?pre = "[example_file ''a.txt'' ''XXXXX'' True 10 20,
        example_file ''b.txt'' ''XXXXX'' True 11 21,
        example_file ''c.dat'' ''YYYYY'' True 12 22]"
  let ?e = "example_file ''d.txt'' ''XXXXX'' True 13 23"
  let ?s = "\<lparr>byte_size = Some 5,
      checksum_cache_key =
        [Some ''XXXXX'' \<mapsto> file_record plain_digest (example_file ''b.txt'' ''XXXXX'' True 11 21) 0,
         Some ''YYYYY'' \<mapsto> file_record plain_digest (example_file ''c.dat'' ''YYYYY'' True 12 22) 0],
      checksum_cache_value =
        Some (file_record plain_digest (example_file ''c.dat'' ''YYYYY'' True 12 22) 0),
      confirmed_dup_key = Map.empty, byte_cache = {5}\<rparr>"
  let ?l = "\<lparr>report = [],
      debug_log = [Length_of_byte_size {}, Doing_checksum ''root/b.txt'', Doing_checksum ''root/c.dat''],
      dupNumber = 0, byte_count = 0, record_count = 3,
      modDate = Some (Strftime date_format 12),
      searchDate = Some (Strftime ''%Y%m%d'' 1194220800),
      fileType = Some PyNone, fileExt = Some ''.dat''\<rparr>"
  have pre: "diskWalker plain_digest 1 LitenBaseClass_init ?pre = Inr (?s, ?l)"
    by (simp add: eval_scan)
  have big: "isfile ?e" "1 \<le> getsize ?e" "getsize ?e \<in> byte_cache ?s"
    by (simp_all add: example_file_def)
  have hit: "checksum_cache_key ?s (createChecksum plain_digest ?e) =
      Some (file_record plain_digest (example_file ''b.txt'' ''XXXXX'' True 11 21) 0)"
    by (simp add: example_file_def createChecksum_def plain_digest_def)
  from duplicate_entries_copy_last_registered [OF pre big hit]
  show ?thesis
    by (auto simp: eval_scan)
qed

subsection \<open>The checksum cache\<close>

lemma loop_body_cache:
  "loop_body md5 thr (s, l) e = Inr (s', l') \<Longrightarrow>
   checksum_cache_key s' =
     (if isfile e \<and> thr \<le> getsize e \<and> getsize e \<in> byte_cache s \<and>
         checksum_cache_key s (createChecksum md5 e) = None
      then (checksum_cache_key s)(createChecksum md5 e \<mapsto> file_record md5 e (dupNumber l))
      else checksum_cache_key s)"
  by (auto simp: loop_body_def Let_def match_branch_def register_branch_def file_record_def
      split: if_splits option.splits)

lemma walk_cache_earliest:
  "walk md5 thr st es = Inr st' \<Longrightarrow>
   (case checksum_cache_key (fst st) k of
      Some r \<Rightarrow> checksum_cache_key (fst st') k = Some r
    | None \<Rightarrow>
       (case find (\<lambda>e. createChecksum md5 e = k) (hashed thr (byte_cache (fst st)) es) of
          None \<Rightarrow> checksum_cache_key (fst st') k = None
        | Some e \<Rightarrow> \<exists>d. checksum_cache_key (fst st') k = Some (file_record md5 e d)))"
proof (induction es arbitrary: st)
  case Nil
  then show ?case by (auto split: option.splits)
next
  case (Cons e es)
  obtain s l where st: "st = (s, l)" by (cases st)
  from Cons.prems st obtain s1 l1 where
    step: "loop_body md5 thr (s, l) e = Inr (s1, l1)" and
    rest: "walk md5 thr (s1, l1) es = Inr st'"
    by (auto split: sum.splits)
  note ih = Cons.IH [OF rest]
  note c = loop_body_cache [OF step]
  note b = loop_body_byte_cache [OF step]
  show ?case
    using ih c b st
    by (auto simp: insert_absorb split: option.splits if_splits)
qed

lemma loop_body_log:
  "loop_body md5 thr (s, l) e = Inr (s', l') \<Longrightarrow>
   filter checksum_msg (debug_log l') =
     filter checksum_msg (debug_log l) @
     (if isfile e \<and> thr \<le> getsize e \<and> getsize e \<in> byte_cache s
      then [Doing_checksum (path e)] else [])"
  by (auto simp: loop_body_def Let_def match_branch_def register_branch_def
      split: if_splits option.splits)

lemma walk_log:
  "walk md5 thr st es = Inr st' \<Longrightarrow>
   filter checksum_msg (debug_log (snd st')) =
     filter checksum_msg (debug_log (snd st)) @
     map (\<lambda>e. Doing_checksum (path e)) (hashed thr (byte_cache (fst st)) es)"
proof (induction es arbitrary: st)
  case Nil
  then show ?case by simp
next
  case (Cons e es)
  obtain s l where st: "st = (s, l)" by (cases st)
  from Cons.prems st obtain s1 l1 where
    step: "loop_body md5 thr (s, l) e = Inr (s1, l1)" and
    rest: "walk md5 thr (s1, l1) es = Inr st'"
    by (auto split: sum.splits)
  show ?case
    using Cons.IH [OF rest] loop_body_log [OF step] loop_body_byte_cache [OF step] st
    by (auto simp: insert_absorb split: if_splits)
qed

lemma walk_cache_kept:
  "walk md5 thr st es = Inr st' \<Longrightarrow> checksum_cache_key (fst st) k = Some r \<Longrightarrow>
   checksum_cache_key (fst st') k = Some r"
  using walk_cache_earliest [of md5 thr st es st' k] by simp

text \<open>
  C6. A scan of a fresh instance returns, and at its end: the debug log names, in
  order, exactly the entries of \<open>hashed\<close> (the files that triggered hashing); for
  every checksum \<open>k\<close>, the cache has no record under \<open>k\<close> when no hashed entry
  yielded \<open>k\<close>, and otherwise holds the record written for the earliest hashed entry
  that yielded \<open>k\<close>; and a record found under \<open>k\<close> after any prefix of the scan is
  still the record under \<open>k\<close> at the end.
\<close>

theorem checksum_cache_keeps_earliest:
  "\<exists>s l. diskWalker md5 byteSizeThreshold LitenBaseClass_init es = Inr (s, l) \<and>
     filter checksum_msg (debug_log l) =
       map (\<lambda>e. Doing_checksum (path e)) (hashed byteSizeThreshold {} es) \<and>
     (\<forall>k. case find (\<lambda>e. createChecksum md5 e = k) (hashed byteSizeThreshold {} es) of
            None \<Rightarrow> checksum_cache_key s k = None
          | Some e \<Rightarrow> \<exists>d. checksum_cache_key s k = Some (file_record md5 e d)) \<and>
     (\<forall>pre post s1 l1 k r.
        es = pre @ post \<longrightarrow>
        diskWalker md5 byteSizeThreshold LitenBaseClass_init pre = Inr (s1, l1) \<longrightarrow>
        checksum_cache_key s1 k = Some r \<longrightarrow> checksum_cache_key s k = Some r)"
proof -
  from diskWalker_returns [of md5 byteSizeThreshold es] obtain s l where
    run: "diskWalker md5 byteSizeThreshold LitenBaseClass_init es = Inr (s, l)"
    by blast
  then have w: "walk md5 byteSizeThreshold (LitenBaseClass_init, new_frame) es = Inr (s, l)"
    by (simp add: diskWalker_def)
  have log: "filter checksum_msg (debug_log l) =
      map (\<lambda>e. Doing_checksum (path e)) (hashed byteSizeThreshold {} es)"
    using walk_log [OF w] by (simp add: LitenBaseClass_init_def new_frame_def)
  have first: "case find (\<lambda>e. createChecksum md5 e = k) (hashed byteSizeThreshold {} es) of
            None \<Rightarrow> checksum_cache_key s k = None
          | Some e \<Rightarrow> \<exists>d. checksum_cache_key s k = Some (file_record md5 e d)" for k
    using walk_cache_earliest [OF w, of k]
    by (simp add: LitenBaseClass_init_def split: option.splits)
  have kept: "checksum_cache_key s k = Some r"
    if "es = pre @ post"
      and "diskWalker md5 byteSizeThreshold LitenBaseClass_init pre = Inr (s1, l1)"
      and "checksum_cache_key s1 k = Some r"
    for pre post s1 l1 k r
  proof -
    have "walk md5 byteSizeThreshold (s1, l1) post = Inr (s, l)"
      using w that(1,2) by (simp add: walk_append diskWalker_def)
    from walk_cache_kept [OF this, of k r] that(3) show ?thesis
      by simp
  qed
  show ?thesis
    using run log first kept by blast
qed

theorem checksum_cache_keeps_earliest_witness:
  "\<exists>s l. diskWalker plain_digest 1 LitenBaseClass_init
       [example_file ''a.txt'' ''XXXXX'' True 10 20,
        example_file ''b.txt'' ''XXXXX'' True 11 21,
        example_file ''c.txt'' ''XXXXX'' True 12 22,
        example_file ''d.txt'' ''XXXXX'' True 13 23] = Inr (s, l) \<and>
     find (\<lambda>e. createChecksum plain_digest e = Some ''XXXXX'')
       (hashed 1 {}
          [example_file ''a.txt'' ''XXXXX'' True 10 20,
           example_file ''b.txt'' ''XXXXX'' True 11 21,
           example_file ''c.txt'' ''XXXXX'' True 12 22,
           example_file ''d.txt'' ''XXXXX'' True 13 23]) =
       Some (example_file ''b.txt'' ''XXXXX'' True 11 21) \<and>
     checksum_cache_key s (Some ''XXXXX'') =
       Some (file_record plain_digest (example_file ''b.txt'' ''XXXXX'' True 11 21) 0)"
proof -
  let ?a = "example_file ''a.txt'' ''XXXXX'' True 10 20"
  let ?b = "example_file ''b.txt'' ''XXXXX'' True 11 21"
  let ?c = "example_file ''c.txt'' ''XXXXX'' True 12 22"
  let ?d = "example_file ''d.txt'' ''XXXXX'' True 13 23"
  from checksum_cache_keeps_earliest [of plain_digest 1 "[?a, ?b, ?c, ?d]"]
  obtain s l where
    run: "diskWalker plain_digest 1 LitenBaseClass_init [?a, ?b, ?c, ?d] = Inr (s, l)" and
    kept: "\<And>pre post s1 l1 k r. [?a, ?b, ?c, ?d] = pre @ post \<Longrightarrow>
        diskWalker plain_digest 1 LitenBaseClass_init pre = Inr (s1, l1) \<Longrightarrow>
        checksum_cache_key s1 k = Some r \<Longrightarrow> checksum_cache_key s k = Some r"
    by blast
  obtain s1 l1 where
    pre: "diskWalker plain_digest 1 LitenBaseClass_init [?a, ?b] = Inr (s1, l1)" and
    hit: "checksum_cache_key s1 (Some ''XXXXX'') = Some (file_record plain_digest ?b 0)"
    by (simp add: eval_scan)
  have "[?a, ?b, ?c, ?d] = [?a, ?b] @ [?c, ?d]"
    by simp
  from kept [OF this pre hit]
  have "checksum_cache_key s (Some ''XXXXX'') = Some (file_record plain_digest ?b 0)" .
  moreover have "find (\<lambda>e. createChecksum plain_digest e = Some ''XXXXX'')
      (hashed 1 {} [?a, ?b, ?c, ?d]) = Some ?b"
    by (simp add: example_file_def createChecksum_def plain_digest_def)
  ultimately show ?thesis
    using run by blast
qed

subsection \<open>Matches between files that are read\<close>

text \<open>
  In a scan of a fresh instance, the cached record that an entry matches was
  written for an earlier entry with the same checksum; when the digest is injective
  and the matching entry can be read, that earlier entry can be read too and has
  the same content.
\<close>

lemma hashed_subset: "set (hashed thr seen es) \<subseteq> set es"
  by (induction es arbitrary: seen) auto

lemma matched_files_share_checksum:
  assumes pre: "diskWalker md5 thr LitenBaseClass_init pre = Inr (s, l)"
    and hit: "checksum_cache_key s (createChecksum md5 e) = Some orig"
  shows "\<exists>g \<in> set pre. rec_fullPath orig = path g \<and> rec_bytes orig = getsize g \<and>
           createChecksum md5 g = createChecksum md5 e"
proof -
  from pre have w: "walk md5 thr (LitenBaseClass_init, new_frame) pre = Inr (s, l)"
    by (simp add: diskWalker_def)
  from walk_cache_earliest [OF w, of "createChecksum md5 e"] hit
  obtain g d where
    f: "find (\<lambda>x. createChecksum md5 x = createChecksum md5 e) (hashed thr {} pre) = Some g" and
    o: "orig = file_record md5 g d"
    by (auto simp: LitenBaseClass_init_def split: option.splits)
  from f have "createChecksum md5 g = createChecksum md5 e" "g \<in> set (hashed thr {} pre)"
    by (auto simp: find_Some_iff)
  with o hashed_subset [of thr "{}" pre] show ?thesis
    by (auto simp: file_record_sel)
qed

lemma readable_match_has_same_content:
  assumes "inj md5"
    and "diskWalker md5 thr LitenBaseClass_init pre = Inr (s, l)"
    and "checksum_cache_key s (createChecksum md5 e) = Some orig"
    and "readable e"
  shows "\<exists>g \<in> set pre. rec_fullPath orig = path g \<and> readable g \<and> content g = content e"
proof -
  from matched_files_share_checksum [OF assms(2,3)] obtain g where
    g: "g \<in> set pre" "rec_fullPath orig = path g"
      "createChecksum md5 g = createChecksum md5 e"
    by blast
  from g(3) assms(1,4) have "readable g \<and> content g = content e"
    by (auto simp: createChecksum_def inj_eq split: if_splits)
  with g show ?thesis
    by blast
qed

subsection \<open>The lifetime of the trackers\<close>

lemma loop_body_registry:
  "loop_body md5 thr (s, l) e = Inr (s', l') \<Longrightarrow>
   dom (confirmed_dup_key s) \<subseteq> dom (confirmed_dup_key s')"
  by (auto simp: loop_body_def Let_def match_branch_def register_branch_def
      split: if_splits option.splits)

lemma loop_body_raises:
  "loop_body md5 thr (s, l) e = Inl err \<Longrightarrow>
   isfile e \<and> thr \<le> getsize e \<and> getsize e \<in> byte_cache s \<and>
   (\<exists>orig. checksum_cache_key s (createChecksum md5 e) = Some orig)"
  by (auto simp: loop_body_def Let_def split: if_splits option.splits)

lemma match_branch_after_raise_point:
  "match_branch (s\<lparr>byte_size := Some (getsize e)\<rparr>) l e c orig n = Inr (s', l') \<Longrightarrow>
   \<exists>r. s' = (raised_instance s e orig)
          \<lparr>confirmed_dup_key := (confirmed_dup_key (raised_instance s e orig))(path e \<mapsto> r)\<rparr>"
  by (auto simp: match_branch_def Let_def raised_instance_def split: option.splits)

lemma loop_body_cache_le:
  "loop_body md5 thr (s, l) e = Inr (s', l') \<Longrightarrow>
   checksum_cache_key s \<subseteq>\<^sub>m checksum_cache_key s'"
  using loop_body_cache [of md5 thr s l e s' l']
  by (auto simp: map_le_def split: if_splits)

lemma raised_instance_grows:
  "byte_cache (raised_instance s e orig) = byte_cache s"
  "checksum_cache_key (raised_instance s e orig) = checksum_cache_key s"
  "dom (confirmed_dup_key s) \<subseteq> dom (confirmed_dup_key (raised_instance s e orig))"
  by (auto simp: raised_instance_def)

lemma walk_leaves_returned:
  "walk md5 thr st es = Inr st' \<Longrightarrow> walk_leaves md5 thr st es = fst st'"
  by (induction es arbitrary: st) (auto split: sum.splits)

lemma walk_leaves_grows:
  "byte_cache (fst st) \<subseteq> byte_cache (walk_leaves md5 thr st es) \<and>
   checksum_cache_key (fst st) \<subseteq>\<^sub>m checksum_cache_key (walk_leaves md5 thr st es) \<and>
   dom (confirmed_dup_key (fst st)) \<subseteq> dom (confirmed_dup_key (walk_leaves md5 thr st es))"
proof (induction es arbitrary: st)
  case Nil
  then show ?case by simp
next
  case (Cons e es)
  obtain s l where st: "st = (s, l)" by (cases st)
  show ?case
  proof (cases "loop_body md5 thr (s, l) e")
    case (Inl err)
    from loop_body_raises [OF Inl] obtain orig where
      "checksum_cache_key s (createChecksum md5 e) = Some orig"
      by blast
    with Inl st have "walk_leaves md5 thr st (e # es) = raised_instance s e orig"
      by simp
    then show ?thesis
      using raised_instance_grows [of s e orig] st by simp
  next
    case (Inr st1)
    obtain s1 l1 where st1: "st1 = (s1, l1)" by (cases st1)
    note step = Inr [unfolded st1]
    have a: "byte_cache s \<subseteq> byte_cache s1"
      using loop_body_byte_cache [OF step] by (auto split: if_splits)
    note b = loop_body_cache_le [OF step]
    note c = loop_body_registry [OF step]
    from Cons.IH [of "(s1, l1)"] have
      a': "byte_cache s1 \<subseteq> byte_cache (walk_leaves md5 thr (s1, l1) es)" and
      b': "checksum_cache_key s1 \<subseteq>\<^sub>m checksum_cache_key (walk_leaves md5 thr (s1, l1) es)" and
      c': "dom (confirmed_dup_key s1) \<subseteq>
             dom (confirmed_dup_key (walk_leaves md5 thr (s1, l1) es))"
      by simp_all
    have w: "walk_leaves md5 thr (s, l) (e # es) = walk_leaves md5 thr (s1, l1) es"
      using step by simp
    show ?thesis
      unfolding st fst_conv w
      using order_trans [OF a a'] map_le_trans [OF b b'] order_trans [OF c c']
      by simp
  qed
qed

text \<open>
  C9 as stated fails on library use of one instance. The first scan of a two-file
  tree leaves the size 5 and the checksum of the second file in the instance; a
  second \<^verbatim>\<open>diskWalker\<close> call on that instance starts from them, matches the first
  file, and raises on the unbound local \<^verbatim>\<open>modDate\<close>.
\<close>

theorem second_scan_on_same_instance:
  "map_sum id (\<lambda>st. (byte_cache (fst st), dom (checksum_cache_key (fst st))))
     (diskWalker plain_digest 1 LitenBaseClass_init
        [example_file ''a.txt'' ''XXXXX'' True 10 20,
         example_file ''b.txt'' ''XXXXX'' True 11 21]) = Inr ({5}, {Some ''XXXXX''}) \<and>
   scan_twice plain_digest 1 LitenBaseClass_init
        [example_file ''a.txt'' ''XXXXX'' True 10 20,
         example_file ''b.txt'' ''XXXXX'' True 11 21] = Inl UnboundLocalError"
  by (simp add: eval_scan scan_twice_def)

text \<open>
  C9, amended. The size-seen set, the checksum cache and the registry are fields of
  the instance: the constructor creates them empty, so the first scan of a fresh
  instance starts with all three empty. Every \<^verbatim>\<open>diskWalker\<close> call starts from a new
  frame, with the wasted-byte total and the duplicate counter at zero, and on an
  empty tree returns the instance as it was. No call clears the trackers: in the
  instance that a call leaves, whether the call returns or raises, every size of
  the size-seen set is still there, every record of the checksum cache is still
  there unchanged, and every path of the registry is still a key of the registry
  (the record under a path may have been replaced by a match of that call). When
  the call returns, that instance is the one it returns with.
\<close>

theorem trackers_belong_to_the_instance:
  "byte_cache LitenBaseClass_init = {} \<and>
   checksum_cache_key LitenBaseClass_init = Map.empty \<and>
   confirmed_dup_key LitenBaseClass_init = Map.empty \<and>
   diskWalker md5 byteSizeThreshold self [] = Inr (self, new_frame) \<and>
   byte_count new_frame = 0 \<and> dupNumber new_frame = 0 \<and>
   (\<forall>self' l. diskWalker md5 byteSizeThreshold self es = Inr (self', l) \<longrightarrow>
      diskWalker_leaves md5 byteSizeThreshold self es = self') \<and>
   byte_cache self \<subseteq> byte_cache (diskWalker_leaves md5 byteSizeThreshold self es) \<and>
   checksum_cache_key self \<subseteq>\<^sub>m
     checksum_cache_key (diskWalker_leaves md5 byteSizeThreshold self es) \<and>
   dom (confirmed_dup_key self) \<subseteq>
     dom (confirmed_dup_key (diskWalker_leaves md5 byteSizeThreshold self es))"
proof -
  have ret: "diskWalker_leaves md5 byteSizeThreshold self es = self'"
    if "diskWalker md5 byteSizeThreshold self es = Inr (self', l)" for self' l
    using walk_leaves_returned [of md5 byteSizeThreshold "(self, new_frame)" es "(self', l)"] that
    by (simp add: diskWalker_def diskWalker_leaves_def)
  from walk_leaves_grows [of "(self, new_frame)" md5 byteSizeThreshold es]
  have grow: "byte_cache self \<subseteq> byte_cache (diskWalker_leaves md5 byteSizeThreshold self es)"
    "checksum_cache_key self \<subseteq>\<^sub>m
       checksum_cache_key (diskWalker_leaves md5 byteSizeThreshold self es)"
    "dom (confirmed_dup_key self) \<subseteq>
       dom (confirmed_dup_key (diskWalker_leaves md5 byteSizeThreshold self es))"
    by (simp_all add: diskWalker_leaves_def)
  show ?thesis
    using ret grow by (simp add: LitenBaseClass_init_def new_frame_def diskWalker_def)
qed


theorem trackers_belong_to_the_instance_witness:
  "\<exists>self l self' l'.
     diskWalker plain_digest 1 LitenBaseClass_init
       [example_file ''a.txt'' ''XXXXX'' True 10 20,
        example_file ''b.txt'' ''XXXXX'' True 11 21,
        example_file ''c.txt'' ''XXXXX'' True 12 22] = Inr (self, l) \<and>
     diskWalker plain_digest 1 self
       [example_file ''e.dat'' ''YYYYY'' True 14 24,
        example_file ''a.txt'' ''XXXXX'' True 10 20] = Inr (self', l') \<and>
     diskWalker_leaves plain_digest 1 self
       [example_file ''e.dat'' ''YYYYY'' True 14 24,
        example_file ''a.txt'' ''XXXXX'' True 10 20] = self' \<and>
     byte_cache self = {5} \<and> byte_cache self \<subseteq> byte_cache self' \<and>
     dom (checksum_cache_key self) = {Some ''XXXXX''} \<and>
     checksum_cache_key self \<subseteq>\<^sub>m checksum_cache_key self' \<and>
     dom (confirmed_dup_key self) = {''root/b.txt'', ''root/c.txt''} \<and>
     dom (confirmed_dup_key self) \<subseteq> dom (confirmed_dup_key self') \<and>
     confirmed_dup_key self ''root/b.txt'' =
       Some (Some (file_record plain_digest (example_file ''b.txt'' ''XXXXX'' True 11 21) 0)) \<and>
     confirmed_dup_key self' ''root/b.txt'' =
       Some (Some (file_record plain_digest (example_file ''e.dat'' ''YYYYY'' True 14 24) 0)) \<and>
     diskWalker plain_digest 1 self
       [example_file ''a.txt'' ''XXXXX'' True 10 20] = Inl UnboundLocalError \<and>
     byte_cache self \<subseteq> byte_cache (diskWalker_leaves plain_digest 1 self
       [example_file ''a.txt'' ''XXXXX'' True 10 20]) \<and>
     checksum_cache_key self \<subseteq>\<^sub>m checksum_cache_key (diskWalker_leaves plain_digest 1 self
       [example_file ''a.txt'' ''XXXXX'' True 10 20]) \<and>
     dom (confirmed_dup_key self) \<subseteq> dom (confirmed_dup_key (diskWalker_leaves plain_digest 1 self
       [example_file ''a.txt'' ''XXXXX'' True 10 20]))"
proof -
  let ?a = "example_file ''a.txt'' ''XXXXX'' True 10 20"
  let ?b = "example_file ''b.txt'' ''XXXXX'' True 11 21"
  let ?c = "example_file ''c.txt'' ''XXXXX'' True 12 22"
  let ?e = "example_file ''e.dat'' ''YYYYY'' True 14 24"
  obtain self l where
    first: "diskWalker plain_digest 1 LitenBaseClass_init [?a, ?b, ?c] = Inr (self, l)" and
    self: "self = \<lparr>byte_size = Some 5,
       checksum_cache_key = [Some ''XXXXX'' \<mapsto> file_record plain_digest ?b 0],
       checksum_cache_value = Some (file_record plain_digest ?b 0),
       confirmed_dup_key =
         [''root/b.txt'' \<mapsto> Some (file_record plain_digest ?b 0),
          ''root/c.txt'' \<mapsto> Some ((file_record plain_digest ?b 0)
             \<lparr>rec_fullPath := ''root/c.txt'', rec_dupNumber := 1\<rparr>)],
       byte_cache = {5}\<rparr>"
    by (simp add: eval_scan)
  obtain self' l' where
    second: "diskWalker plain_digest 1 self [?e, ?a] = Inr (self', l')" and
    repl: "confirmed_dup_key self' ''root/b.txt'' = Some (Some (file_record plain_digest ?e 0))"
    unfolding self by (simp add: eval_scan)
  have third: "diskWalker plain_digest 1 self [?a] = Inl UnboundLocalError"
    unfolding self by (simp add: eval_scan)
  have held: "byte_cache self = {5}" "dom (checksum_cache_key self) = {Some ''XXXXX''}"
    "dom (confirmed_dup_key self) = {''root/b.txt'', ''root/c.txt''}"
    "confirmed_dup_key self ''root/b.txt'' = Some (Some (file_record plain_digest ?b 0))"
    unfolding self by auto
  note returning = trackers_belong_to_the_instance [of plain_digest 1 self "[?e, ?a]"]
  note raising = trackers_belong_to_the_instance [of plain_digest 1 self "[?a]"]
  from returning second have leaves: "diskWalker_leaves plain_digest 1 self [?e, ?a] = self'"
    by blast
  from returning have grow:
    "byte_cache self \<subseteq> byte_cache self'"
    "checksum_cache_key self \<subseteq>\<^sub>m checksum_cache_key self'"
    "dom (confirmed_dup_key self) \<subseteq> dom (confirmed_dup_key self')"
    unfolding leaves by blast+
  from raising have grow':
    "byte_cache self \<subseteq> byte_cache (diskWalker_leaves plain_digest 1 self [?a])"
    "checksum_cache_key self \<subseteq>\<^sub>m checksum_cache_key (diskWalker_leaves plain_digest 1 self [?a])"
    "dom (confirmed_dup_key self) \<subseteq>
       dom (confirmed_dup_key (diskWalker_leaves plain_digest 1 self [?a]))"
    by blast+
  show ?thesis
    by (rule exI [of _ self], rule exI [of _ l], rule exI [of _ self'], rule exI [of _ l'],
        intro conjI)
      (fact first, fact second, fact leaves, fact held(1), fact grow(1), fact held(2),
        fact grow(2), fact held(3), fact grow(3), fact held(4), fact repl, fact third,
        fact grow'(1), fact grow'(2), fact grow'(3))
qed

subsection \<open>Files below the threshold\<close>

lemma loop_body_forget:
  "map_sum id forget_count (loop_body md5 thr (forget_count st) e) =
   map_sum id forget_count (loop_body md5 thr st e)"
  by (cases st)
    (auto simp: loop_body_def Let_def match_branch_def register_branch_def forget_count_def
      split: option.splits)

lemma loop_body_small_forget:
  "isfile e \<Longrightarrow> getsize e < thr \<Longrightarrow>
   map_sum id forget_count (loop_body md5 thr st e) = Inr (forget_count st)"
  by (cases st) (simp add: loop_body_small forget_count_def)

lemma walk_forget:
  "forget_count st = forget_count st' \<Longrightarrow>
   map_sum id forget_count (walk md5 thr st es) = map_sum id forget_count (walk md5 thr st' es)"
proof (induction es arbitrary: st st')
  case Nil
  then show ?case by simp
next
  case (Cons e es)
  have eq: "map_sum id forget_count (loop_body md5 thr st e) =
      map_sum id forget_count (loop_body md5 thr st' e)"
    using loop_body_forget [of md5 thr st e] loop_body_forget [of md5 thr st' e] Cons.prems
    by simp
  show ?case
  proof (cases "loop_body md5 thr st e")
    case (Inl err)
    with eq show ?thesis
      by (cases "loop_body md5 thr st' e") auto
  next
    case (Inr st1)
    with eq obtain st1' where
      r: "loop_body md5 thr st' e = Inr st1'" and f: "forget_count st1 = forget_count st1'"
      by (cases "loop_body md5 thr st' e") auto
    from Cons.IH [OF f] Inr r show ?thesis
      by simp
  qed
qed

lemma walk_without_small:
  "map_sum id forget_count (walk md5 thr st (filter (\<lambda>e. \<not> (isfile e \<and> getsize e < thr)) es)) =
   map_sum id forget_count (walk md5 thr st es)"
proof (induction es arbitrary: st)
  case Nil
  then show ?case by simp
next
  case (Cons e es)
  show ?case
  proof (cases "isfile e \<and> getsize e < thr")
    case True
    then obtain st1 where
      r: "loop_body md5 thr st e = Inr st1" and f: "forget_count st1 = forget_count st"
      using loop_body_small_forget [of e thr md5 st]
      by (cases "loop_body md5 thr st e") auto
    have a: "walk md5 thr st (filter (\<lambda>e. \<not> (isfile e \<and> getsize e < thr)) (e # es)) =
        walk md5 thr st (filter (\<lambda>e. \<not> (isfile e \<and> getsize e < thr)) es)"
      using True by simp
    have b: "walk md5 thr st (e # es) = walk md5 thr st1 es"
      using r by simp
    show ?thesis
      unfolding a b
      by (rule trans [OF Cons.IH [of st] walk_forget [OF f, of md5 thr es, symmetric]])
  next
    case False
    then show ?thesis
      using Cons.IH by (auto split: sum.splits)
  qed
qed

text \<open>
  C5 as stated fails on the counter of examined files. A scan of one five-byte
  file under a threshold of 1048576 bytes ends with \<open>record_count\<close> at 1 and with
  the attribute \<open>byte_size\<close> at 5: the file is counted.
\<close>

theorem small_file_is_counted:
  "map_sum id (\<lambda>st. (record_count (snd st), byte_size (fst st)))
     (diskWalker plain_digest 1048576 LitenBaseClass_init
        [example_file ''small.txt'' ''XXXXX'' True 10 20]) = Inr (1, Some 5)"
  by (simp add: eval_scan)

text \<open>
  C5, amended. For a regular file below the threshold the loop body adds one to
  \<open>record_count\<close>, assigns the attribute \<open>byte_size\<close>, and does nothing else: the
  size-seen set, the debug log of hashed files, the checksum cache, the registry,
  the report and the other counters stay as they were. For the scan as a whole:
  removing every such file from the tree changes nothing in the result but
  \<open>record_count\<close> and \<open>byte_size\<close>, whatever copies of these files the tree holds.
\<close>

theorem below_threshold_files_only_counted:
  "(isfile e \<and> getsize e < byteSizeThreshold \<longrightarrow>
      loop_body md5 byteSizeThreshold (s, l) e =
        Inr (s\<lparr>byte_size := Some (getsize e)\<rparr>, l\<lparr>record_count := record_count l + 1\<rparr>)) \<and>
   map_sum id forget_count (diskWalker md5 byteSizeThreshold self es) =
     map_sum id forget_count
       (diskWalker md5 byteSizeThreshold self
          (filter (\<lambda>e. \<not> (isfile e \<and> getsize e < byteSizeThreshold)) es))"
  using walk_without_small [of md5 byteSizeThreshold "(self, new_frame)" es]
  by (simp add: loop_body_small diskWalker_def)

theorem below_threshold_files_only_counted_witness:
  "loop_body plain_digest 10 (LitenBaseClass_init, new_frame)
     (example_file ''small.txt'' ''XXXXX'' True 10 20) =
     Inr (LitenBaseClass_init\<lparr>byte_size := Some 5\<rparr>, new_frame\<lparr>record_count := 1\<rparr>) \<and>
   map_sum id forget_count
     (diskWalker plain_digest 10 LitenBaseClass_init
        [example_file ''small.txt'' ''XXXXX'' True 10 20,
         example_file ''a.txt'' ''XXXXXXXXXXXX'' True 11 21,
         example_file ''copy.txt'' ''XXXXX'' True 12 22,
         example_file ''b.txt'' ''XXXXXXXXXXXX'' True 13 23]) =
   map_sum id forget_count
     (diskWalker plain_digest 10 LitenBaseClass_init
        [example_file ''a.txt'' ''XXXXXXXXXXXX'' True 11 21,
         example_file ''b.txt'' ''XXXXXXXXXXXX'' True 13 23])"
  using below_threshold_files_only_counted
    [of "example_file ''small.txt'' ''XXXXX'' True 10 20" 10 plain_digest
        LitenBaseClass_init new_frame LitenBaseClass_init
        "[example_file ''small.txt'' ''XXXXX'' True 10 20,
          example_file ''a.txt'' ''XXXXXXXXXXXX'' True 11 21,
          example_file ''copy.txt'' ''XXXXX'' True 12 22,
          example_file ''b.txt'' ''XXXXXXXXXXXX'' True 13 23]"]
  by (simp add: example_file_def new_frame_def)

subsection \<open>Scanning the same tree again\<close>

lemma retimed_entry_sel:
  "path (retimed_entry t e) = path e"
  "file_name (retimed_entry t e) = file_name e"
  "isfile (retimed_entry t e) = isfile e"
  "getsize (retimed_entry t e) = getsize e"
  "createChecksum md5 (retimed_entry t e) = createChecksum md5 e"
  "makeCreateDate (retimed_entry t e) = map_date t (makeCreateDate e)"
  "createSearchDate (retimed_entry t e) = map_date (\<lambda>n. 0) (createSearchDate e)"
  by (simp_all add: retimed_entry_def createChecksum_def makeCreateDate_def createSearchDate_def)

lemma retimed_pair:
  "retimed t (s, l) =
     (s\<lparr>checksum_cache_key := map_option (retimed_record t) \<circ> checksum_cache_key s,
        checksum_cache_value := map_option (retimed_record t) (checksum_cache_value s),
        confirmed_dup_key := map_option (map_option (retimed_record t)) \<circ> confirmed_dup_key s\<rparr>,
      l\<lparr>report := map (retimed_line t) (report l),
        modDate := map_option (map_date t) (modDate l),
        searchDate := map_option (map_date (\<lambda>n. 0)) (searchDate l)\<rparr>)"
  by (simp add: retimed_def)

lemma match_branch_retimed:
  "match_branch (fst (retimed t (s, l))) (snd (retimed t (s, l))) (retimed_entry t e) c
     (retimed_record t orig) n =
   map_sum id (retimed t) (match_branch s l e c orig n)"
  by (simp add: match_branch_def Let_def retimed_pair retimed_entry_sel retimed_record_def
      split: option.splits)

lemma register_branch_retimed:
  "register_branch md5 (fst (retimed t (s, l))) (snd (retimed t (s, l))) (retimed_entry t e) n =
   retimed t (register_branch md5 s l e n)"
  by (simp add: register_branch_def Let_def retimed_pair retimed_entry_sel retimed_record_def)

lemma retimed_fields:
  "byte_cache (fst (retimed t st)) = byte_cache (fst st)"
  "checksum_cache_key (fst (retimed t st)) k =
     map_option (retimed_record t) (checksum_cache_key (fst st) k)"
  by (simp_all add: retimed_def)

lemma loop_body_retimed:
  "loop_body md5 thr (retimed t st) (retimed_entry t e) =
   map_sum id (retimed t) (loop_body md5 thr st e)"
proof -
  obtain s l where st: "st = (s, l)" by (cases st)
  obtain s' l' where st': "retimed t (s, l) = (s', l')" by (cases "retimed t (s, l)")
  have bc: "byte_cache s' = byte_cache s"
    and ck: "checksum_cache_key s' k = map_option (retimed_record t) (checksum_cache_key s k)" for k
    using retimed_fields [of t "(s, l)"] st' by simp_all
  have upd: "retimed t (s\<lparr>byte_size := b\<rparr>, l\<lparr>record_count := r, debug_log := g\<rparr>) =
      (s'\<lparr>byte_size := b\<rparr>, l'\<lparr>record_count := r, debug_log := g\<rparr>)" for b r g
    using st' by (auto simp: retimed_pair)
  have upd1: "retimed t (s\<lparr>byte_size := b\<rparr>, l\<lparr>record_count := r\<rparr>) =
      (s'\<lparr>byte_size := b\<rparr>, l'\<lparr>record_count := r\<rparr>)" for b r
    using st' by (auto simp: retimed_pair)
  have upd2:
    "retimed t (s\<lparr>byte_size := b, byte_cache := c\<rparr>, l\<lparr>record_count := r, debug_log := g\<rparr>) =
      (s'\<lparr>byte_size := b, byte_cache := c\<rparr>, l'\<lparr>record_count := r, debug_log := g\<rparr>)"
    for b c r g
    using st' by (auto simp: retimed_pair)
  have rc: "record_count l' = record_count l" "debug_log l' = debug_log l"
    using st' by (auto simp: retimed_pair)
  show ?thesis
  proof (cases "isfile e")
    case False
    then show ?thesis
      by (simp add: loop_body_skip retimed_entry_sel)
  next
    case reg: True
    show ?thesis
    proof (cases "getsize e < thr")
      case True
      with reg show ?thesis
        unfolding st st'
        by (simp add: loop_body_small retimed_entry_sel upd1 rc)
    next
      case False
      then have big: "thr \<le> getsize e" by simp
      show ?thesis
      proof (cases "getsize e \<in> byte_cache s")
        case False
        with reg big show ?thesis
          unfolding st st'
          by (simp add: loop_body_first retimed_entry_sel upd2 rc bc)
      next
        case seen: True
        show ?thesis
        proof (cases "checksum_cache_key s (createChecksum md5 e)")
          case None
          with reg big seen show ?thesis
            unfolding st st'
            using register_branch_retimed
              [of md5 t "s\<lparr>byte_size := Some (getsize e)\<rparr>"
                "l\<lparr>record_count := record_count l + 1,
                   debug_log := debug_log l @ [Doing_checksum (path e)]\<rparr>" e "getsize e"]
            by (simp add: loop_body_register retimed_entry_sel upd rc bc ck)
        next
          case (Some orig)
          with reg big seen show ?thesis
            unfolding st st'
            using match_branch_retimed
              [of t "s\<lparr>byte_size := Some (getsize e)\<rparr>"
                "l\<lparr>record_count := record_count l + 1,
                   debug_log := debug_log l @ [Doing_checksum (path e)]\<rparr>" e
                "createChecksum md5 e" orig "getsize e"]
            by (simp add: loop_body_match retimed_entry_sel upd rc bc ck)
        qed
      qed
    qed
  qed
qed

lemma walk_retimed:
  "walk md5 thr (retimed t st) (map (retimed_entry t) es) =
   map_sum id (retimed t) (walk md5 thr st es)"
proof (induction es arbitrary: st)
  case Nil
  then show ?case by simp
next
  case (Cons e es)
  show ?case
    using loop_body_retimed [of md5 thr t st e] Cons.IH
    by (cases "loop_body md5 thr st e") simp_all
qed

lemma retimed_init:
  "retimed t (LitenBaseClass_init, new_frame) = (LitenBaseClass_init, new_frame)"
  by (simp add: retimed_def LitenBaseClass_init_def new_frame_def fun_eq_iff)

lemma diskWalker_retimed:
  "map (retimed_entry t) es = map (retimed_entry t) es' \<Longrightarrow>
   map_sum id (retimed t) (diskWalker md5 thr LitenBaseClass_init es) =
   map_sum id (retimed t) (diskWalker md5 thr LitenBaseClass_init es')"
  using walk_retimed [of md5 thr t "(LitenBaseClass_init, new_frame)" es]
    walk_retimed [of md5 thr t "(LitenBaseClass_init, new_frame)" es']
  by (simp add: retimed_init diskWalker_def)

lemma map_date_same: "map_date (\<lambda>n. n) d = d"
  by (cases d) simp

lemma retimed_line_same: "map (retimed_line (\<lambda>n. n)) ls = ls"
proof (induction ls)
  case Nil
  then show ?case by simp
next
  case (Cons ln ls)
  then show ?case by (cases ln) (simp_all add: map_date_same)
qed

lemma map_pair_eq:
  "map f xs = map f ys \<Longrightarrow> map g xs = map g ys \<Longrightarrow>
   map (\<lambda>x. (f x, g x)) xs = map (\<lambda>x. (f x, g x)) ys"
proof (induction xs arbitrary: ys)
  case Nil
  then show ?case by simp
next
  case (Cons x xs)
  then obtain y ys' where "ys = y # ys'" by (cases ys) auto
  with Cons show ?case by auto
qed

text \<open>
  C8. Two scans, each on a fresh instance and with the same threshold, of entry
  sequences that agree in order, paths, file names, regular-file flags, sizes,
  readability and contents both return, whatever the time stamps and the clock,
  and their results agree once the rendered dates are set aside: the same report
  rows in the same order, the same registry keys with the same paths, sizes,
  checksums and sequence numbers, the same checksum cache keys, size-seen set,
  debug log and counters. When the change times agree as well (the tree is
  unmodified), the two reports are equal and the two results differ at most in
  the search date, which follows the clock.
\<close>

theorem rescan_finds_same_duplicates:
  assumes "map tree_view es = map tree_view es'"
  shows "\<exists>st st'.
      diskWalker md5 byteSizeThreshold LitenBaseClass_init es = Inr st \<and>
      diskWalker md5 byteSizeThreshold LitenBaseClass_init es' = Inr st' \<and>
      retimed (\<lambda>n. 0) st = retimed (\<lambda>n. 0) st' \<and>
      (map getctime es = map getctime es' \<longrightarrow>
         retimed (\<lambda>n. n) st = retimed (\<lambda>n. n) st' \<and> report (snd st) = report (snd st'))"
proof -
  from diskWalker_returns [of md5 byteSizeThreshold es] obtain st where
    r: "diskWalker md5 byteSizeThreshold LitenBaseClass_init es = Inr st"
    by blast
  from diskWalker_returns [of md5 byteSizeThreshold es'] obtain st' where
    r': "diskWalker md5 byteSizeThreshold LitenBaseClass_init es' = Inr st'"
    by blast
  define rebuild where "rebuild = (\<lambda>((p, f, i, n, r, c), t).
      \<lparr>path = p, file_name = f, isfile = i, getsize = n, readable = r, content = c,
       getctime = t, getmtime = 0, now = 0\<rparr>)"
  have one: "retimed_entry t e = rebuild (tree_view e, t (getctime e))" for t e
    by (cases e) (simp add: retimed_entry_def tree_view_def rebuild_def)
  have every: "map (retimed_entry t) xs = map rebuild (map (\<lambda>e. (tree_view e, t (getctime e))) xs)"
    for t xs
    by (simp add: one)
  have "map (\<lambda>e. 0::nat) es = map (\<lambda>e. 0) es'"
    using assms by (metis length_map map_replicate_const)
  from map_pair_eq [OF assms this]
  have "map (retimed_entry (\<lambda>n. 0)) es = map (retimed_entry (\<lambda>n. 0)) es'"
    by (simp only: every)
  from diskWalker_retimed [OF this, of md5 byteSizeThreshold] r r'
  have none: "retimed (\<lambda>n. 0) st = retimed (\<lambda>n. 0) st'"
    by simp
  have same: "retimed (\<lambda>n. n) st = retimed (\<lambda>n. n) st' \<and> report (snd st) = report (snd st')"
    if ct: "map getctime es = map getctime es'"
  proof -
    from map_pair_eq [OF assms ct]
    have "map (retimed_entry (\<lambda>n. n)) es = map (retimed_entry (\<lambda>n. n)) es'"
      by (simp only: every)
    from diskWalker_retimed [OF this, of md5 byteSizeThreshold] r r'
    have eq: "retimed (\<lambda>n. n) st = retimed (\<lambda>n. n) st'"
      by simp
    then have "report (snd (retimed (\<lambda>n. n) st)) = report (snd (retimed (\<lambda>n. n) st'))"
      by simp
    then have "report (snd st) = report (snd st')"
      by (simp add: retimed_def retimed_line_same)
    with eq show ?thesis
      by simp
  qed
  show ?thesis
    by (rule exI [of _ st], rule exI [of _ st'], intro conjI impI)
      (fact r, fact r', fact none, simp_all add: same)
qed


theorem rescan_finds_same_duplicates_witness:
  "\<exists>st st'.
     diskWalker plain_digest 1 LitenBaseClass_init
       [example_file ''a.txt'' ''XXXXX'' True 10 20,
        example_file ''b.txt'' ''XXXXX'' True 11 21,
        example_file ''c.txt'' ''XXXXX'' True 12 22] = Inr st \<and>
     diskWalker plain_digest 1 LitenBaseClass_init
       [(example_file ''a.txt'' ''XXXXX'' True 10 20)\<lparr>now := 1194307200\<rparr>,
        (example_file ''b.txt'' ''XXXXX'' True 11 21)\<lparr>now := 1194307201\<rparr>,
        (example_file ''c.txt'' ''XXXXX'' True 12 22)\<lparr>now := 1194307202\<rparr>] = Inr st' \<and>
     retimed (\<lambda>n. 0) st = retimed (\<lambda>n. 0) st' \<and>
     retimed (\<lambda>n. n) st = retimed (\<lambda>n. n) st' \<and>
     report (snd st) = report (snd st') \<and>
     report (snd st') =
       [Text heading,
        Row ''Original'' ''root/b.txt'' 0 (Strftime date_format 11),
        Row ''Duplicate'' ''root/c.txt'' 0 (Strftime date_format 12)]"
proof -
  let ?es = "[example_file ''a.txt'' ''XXXXX'' True 10 20,
        example_file ''b.txt'' ''XXXXX'' True 11 21,
        example_file ''c.txt'' ''XXXXX'' True 12 22]"
  let ?es' = "[(example_file ''a.txt'' ''XXXXX'' True 10 20)\<lparr>now := 1194307200\<rparr>,
        (example_file ''b.txt'' ''XXXXX'' True 11 21)\<lparr>now := 1194307201\<rparr>,
        (example_file ''c.txt'' ''XXXXX'' True 12 22)\<lparr>now := 1194307202\<rparr>]"
  have view: "map tree_view ?es = map tree_view ?es'"
    by (simp add: tree_view_def example_file_def)
  have ctime: "map getctime ?es = map getctime ?es'"
    by (simp add: example_file_def)
  from rescan_finds_same_duplicates [OF view, of plain_digest 1] ctime obtain st st' where
    r: "diskWalker plain_digest 1 LitenBaseClass_init ?es = Inr st" and
    r': "diskWalker plain_digest 1 LitenBaseClass_init ?es' = Inr st'" and
    none: "retimed (\<lambda>n. 0) st = retimed (\<lambda>n. 0) st'" and
    same: "retimed (\<lambda>n. n) st = retimed (\<lambda>n. n) st'" and
    rep: "report (snd st) = report (snd st')"
    by blast
  have "map_sum id (\<lambda>st. report (snd st))
      (diskWalker plain_digest 1 LitenBaseClass_init ?es') =
      Inr [Text heading,
        Row ''Original'' ''root/b.txt'' 0 (Strftime date_format 11),
        Row ''Duplicate'' ''root/c.txt'' 0 (Strftime date_format 12)]"
    by (simp add: eval_scan)
  with r' have rows: "report (snd st') =
      [Text heading,
        Row ''Original'' ''root/b.txt'' 0 (Strftime date_format 11),
        Row ''Duplicate'' ''root/c.txt'' 0 (Strftime date_format 12)]"
    by simp
  show ?thesis
    by (rule exI [of _ st], rule exI [of _ st'], intro conjI)
      (fact r, fact r', fact none, fact same, fact rep, fact rows)
qed

end
